theory Spec2Isabelle
  imports Main "HOL-Library.Word" "HOL-Library.Signed_Division" "HOL-Library.Multiset"
begin

section \<open>Values of the program\<close>

text \<open>
  The C++ type \<^verbatim>\<open>int\<close> is a 32-bit two's complement integer: a \<open>32 word\<close>, read as a
  signed number with \<open>sint\<close>. Addition wraps around, as it does on the usual targets
  (in C++ itself an overflowing signed addition has no defined result, so every
  theorem below that depends on a sum states that the sum stays in range).
\<close>

type_synonym cint = "32 word"

definition INT_MIN :: cint where
  "INT_MIN = - 2147483648"

definition SENSOR_COUNT :: nat where
  "SENSOR_COUNT = 5"

text \<open>Durations are in milliseconds.\<close>

definition SENSOR_UPDATE_INTERVAL :: nat where
  "SENSOR_UPDATE_INTERVAL = 1500"

definition AGGREGATION_INTERVAL :: nat where
  "AGGREGATION_INTERVAL = 3000"

definition RUN_DURATION :: nat where
  "RUN_DURATION = 60000"

definition CONGESTION_THRESHOLD :: cint where
  "CONGESTION_THRESHOLD = 80"

text \<open>
  \<^verbatim>\<open>struct TrafficData\<close>. The time point is a number of milliseconds since the
  program started.
\<close>

record TrafficData =
  sensor_id :: cint
  density :: cint
  timestamp :: nat

text \<open>
  \<^verbatim>\<open>std::min(a, b)\<close> is \<^verbatim>\<open>(b < a) ? b : a\<close> and \<^verbatim>\<open>std::max(a, b)\<close> is
  \<^verbatim>\<open>(a < b) ? b : a\<close>, with the signed comparison of \<^verbatim>\<open>int\<close>.
\<close>

definition std_min :: "cint \<Rightarrow> cint \<Rightarrow> cint" where
  "std_min a b = (if b <s a then b else a)"

definition std_max :: "cint \<Rightarrow> cint \<Rightarrow> cint" where
  "std_max a b = (if a <s b then b else a)"

text \<open>
  The division of two \<^verbatim>\<open>int\<close>s truncates towards zero (\<open>sdiv\<close> on the signed
  values). The two cases where C++ leaves it undefined, a zero divisor and
  \<^verbatim>\<open>INT_MIN / -1\<close>, are tested by the caller below before it divides.
\<close>

definition int_div :: "cint \<Rightarrow> cint \<Rightarrow> cint" where
  "int_div a b = word_of_int (sint a sdiv sint b)"

text \<open>\<^verbatim>\<open>static_cast<int>(v.size())\<close>: the size, reduced modulo \<open>2 ^ 32\<close>.\<close>

definition size_as_int :: "'a list \<Rightarrow> cint" where
  "size_as_int v = word_of_nat (length v)"

section \<open>One aggregation cycle of \<^verbatim>\<open>logger_task\<close>\<close>

text \<open>
  What the logger writes, in program order: an alert line on \<^verbatim>\<open>std::cerr\<close> with the
  sensor and its density, a line of the log file with average, minimum and maximum,
  and the message on \<^verbatim>\<open>std::cerr\<close> that the log file could not be opened.
\<close>

datatype out =
  Alert cint cint
  | LogLine cint cint cint
  | OpenFailed

text \<open>The locals of the \<^verbatim>\<open>for\<close> loop, and what the loop has written on \<^verbatim>\<open>std::cerr\<close>.\<close>

record tally =
  total :: cint
  min_val :: cint
  max_val :: cint
  cerr :: "out list"

definition tally0 :: tally where
  "tally0 = \<lparr>total = 0, min_val = 100, max_val = 0, cerr = []\<rparr>"

fun for_each :: "TrafficData list \<Rightarrow> tally \<Rightarrow> tally" where
  "for_each [] t = t"
| "for_each (d # ds) t =
     for_each ds
       \<lparr>total = total t + density d,
        min_val = std_min (min_val t) (density d),
        max_val = std_max (max_val t) (density d),
        cerr = (if CONGESTION_THRESHOLD <s density d
                then cerr t @ [Alert (sensor_id d) (density d)]
                else cerr t)\<rparr>"

text \<open>
  The body of the loop of \<^verbatim>\<open>logger_task\<close> after the swap: nothing for an empty batch;
  otherwise the \<^verbatim>\<open>for\<close> loop, the division and the line of the log file. The result is
  what was written, and whether the division was one that C++ leaves undefined (the
  alerts are on \<^verbatim>\<open>std::cerr\<close> by then, the line of the log file is not written).
\<close>

definition aggregate :: "TrafficData list \<Rightarrow> out list \<times> bool" where
  "aggregate local_data =
     (if local_data = [] then ([], False)
      else
        let t = for_each local_data tally0;
            n = size_as_int local_data
        in if n = 0 \<or> (total t = INT_MIN \<and> n = - 1) then (cerr t, True)
           else (cerr t @ [LogLine (int_div (total t) n) (min_val t) (max_val t)], False))"

section \<open>The threads and what they share\<close>

text \<open>
  The program runs \<open>SENSOR_COUNT\<close> sensor threads, one logger thread and the main
  thread. They share \<^verbatim>\<open>sensor_data\<close> (every access is one operation inside a
  \<^verbatim>\<open>std::unique_lock\<close> on \<^verbatim>\<open>data_mutex\<close>, so each access is one atomic step), the
  atomic \<^verbatim>\<open>shutdown_flag\<close> and the condition variable \<^verbatim>\<open>cv\<close>, on which only the logger
  waits. A run is an interleaving of atomic steps of the threads and of the passing
  of time. Each thread has a program counter:

  \<^item> a sensor tests the flag (line 41), sleeps (line 42, with the milliseconds that
    remain), has built its reading and is about to push it (lines 43, 44 and 51, 52),
    is about to notify (line 54), or has returned;
  \<^item> the logger opens the file (lines 59 to 63), tests the flag (line 65), is about
    to wait (lines 67, 68), waits (with the milliseconds that remain until the
    timeout), swaps (lines 71 to 75), reports (lines 77 to 93), or has returned;
  \<^item> the main thread sleeps (line 110), sets the flag (line 111), notifies
    (line 112), waits for the other threads (lines 114, 115), or has returned. The
    sensors and the logger are taken as started.
\<close>

datatype sensor_pc = S_Check | S_Sleep nat | S_Push TrafficData | S_Notify | S_Done

datatype logger_pc = L_Open | L_Check | L_Lock | L_Wait nat | L_Swap | L_Report | L_Done

datatype main_pc = M_Sleep nat | M_Stop | M_Notify | M_Join | M_Done

text \<open>
  The history of the buffer is kept beside the program's own state: which sensor
  pushed which reading, and which batch each swap took out. No step reads it.
\<close>

datatype act = Pushed nat TrafficData | Swapped "TrafficData list"

record world =
  sensor_data :: "TrafficData list"
  shutdown_flag :: bool
  sensors :: "sensor_pc list"
  drawn :: "nat list"
  logger :: logger_pc
  local_data :: "TrafficData list"
  main_thread :: main_pc
  now :: nat
  log_opens :: bool
  written :: "out list"
  history :: "act list"
  undefined_behaviour :: bool

text \<open>
  \<open>drawn\<close> counts the densities each sensor has generated (the state of its
  \<^verbatim>\<open>thread_local\<close> engine), \<open>log_opens\<close> says whether the log file can be opened,
  \<open>written\<close> is everything written on \<^verbatim>\<open>std::cerr\<close> and to the log file, in order.
\<close>

definition init :: "bool \<Rightarrow> world" where
  "init opens =
     \<lparr>sensor_data = [], shutdown_flag = False,
      sensors = replicate SENSOR_COUNT S_Check, drawn = replicate SENSOR_COUNT 0,
      logger = L_Open, local_data = [], main_thread = M_Sleep RUN_DURATION,
      now = 0, log_opens = opens, written = [], history = [],
      undefined_behaviour = False\<rparr>"

text \<open>
  \<^verbatim>\<open>cv.notify_all()\<close> wakes the threads that wait on \<^verbatim>\<open>cv\<close> at that moment: the logger,
  if it is inside \<^verbatim>\<open>wait_for\<close>. A thread that is not waiting yet is not affected.
\<close>

definition notify_all :: "world \<Rightarrow> world" where
  "notify_all s = (case logger s of L_Wait n \<Rightarrow> s\<lparr>logger := L_Swap\<rparr> | _ \<Rightarrow> s)"

text \<open>
  One step of \<^verbatim>\<open>sensor_task\<close> with \<^verbatim>\<open>aggregator_callback\<close> as its callback, for the
  sensor of index \<open>i\<close>. \<open>gen i k\<close> is what \<^verbatim>\<open>generate_density\<close> returns to sensor \<open>i\<close> at
  its call number \<open>k\<close>. \<^verbatim>\<open>sleep_for\<close> returns once its time has passed, and nothing
  else ends it.
\<close>

definition sensor_task :: "(nat \<Rightarrow> nat \<Rightarrow> cint) \<Rightarrow> nat \<Rightarrow> world \<Rightarrow> world" where
  "sensor_task gen i s =
     (if length (sensors s) \<le> i then s
      else case sensors s ! i of
        S_Check \<Rightarrow>
          if shutdown_flag s then s\<lparr>sensors := (sensors s)[i := S_Done]\<rparr>
          else s\<lparr>sensors := (sensors s)[i := S_Sleep SENSOR_UPDATE_INTERVAL]\<rparr>
      | S_Sleep n \<Rightarrow>
          if n = 0
          then s\<lparr>sensors := (sensors s)[i := S_Push
                   \<lparr>sensor_id = word_of_nat i, density = gen i (drawn s ! i),
                    timestamp = now s\<rparr>],
                 drawn := (drawn s)[i := Suc (drawn s ! i)]\<rparr>
          else s
      | S_Push d \<Rightarrow>
          s\<lparr>sensor_data := sensor_data s @ [d],
            sensors := (sensors s)[i := S_Notify],
            history := history s @ [Pushed i d]\<rparr>
      | S_Notify \<Rightarrow> notify_all (s\<lparr>sensors := (sensors s)[i := S_Check]\<rparr>)
      | S_Done \<Rightarrow> s)"

text \<open>
  One step of \<^verbatim>\<open>logger_task\<close>. The wait ends by its timeout (here), by a notification
  (\<open>notify_all\<close>) or spuriously (\<open>spurious\<close>); the flag is read at the head of the
  loop only. \<^verbatim>\<open>local_data\<close> is built empty on line 71 and swapped with
  \<^verbatim>\<open>sensor_data\<close> on line 74, and destroyed at the end of the iteration.
\<close>

definition logger_task :: "world \<Rightarrow> world" where
  "logger_task s =
     (case logger s of
        L_Open \<Rightarrow>
          if log_opens s then s\<lparr>logger := L_Check\<rparr>
          else s\<lparr>written := written s @ [OpenFailed], logger := L_Done\<rparr>
      | L_Check \<Rightarrow>
          if shutdown_flag s then s\<lparr>logger := L_Done\<rparr> else s\<lparr>logger := L_Lock\<rparr>
      | L_Lock \<Rightarrow> s\<lparr>logger := L_Wait AGGREGATION_INTERVAL\<rparr>
      | L_Wait n \<Rightarrow> if n = 0 then s\<lparr>logger := L_Swap\<rparr> else s
      | L_Swap \<Rightarrow>
          s\<lparr>local_data := sensor_data s, sensor_data := [], logger := L_Report,
            history := history s @ [Swapped (sensor_data s)]\<rparr>
      | L_Report \<Rightarrow>
          s\<lparr>written := written s @ fst (aggregate (local_data s)),
            undefined_behaviour := snd (aggregate (local_data s)),
            local_data := [], logger := L_Check\<rparr>
      | L_Done \<Rightarrow> s)"

definition spurious :: "world \<Rightarrow> world" where
  "spurious s = (case logger s of L_Wait n \<Rightarrow> s\<lparr>logger := L_Swap\<rparr> | _ \<Rightarrow> s)"

text \<open>
  One step of \<^verbatim>\<open>main\<close>, from its sleep on. What it prints on \<^verbatim>\<open>std::cout\<close> is left
  out.
\<close>

definition set_flag :: "world \<Rightarrow> world" where
  "set_flag s = s\<lparr>shutdown_flag := True\<rparr>"

definition main :: "world \<Rightarrow> world" where
  "main s =
     (case main_thread s of
        M_Sleep n \<Rightarrow> if n = 0 then s\<lparr>main_thread := M_Stop\<rparr> else s
      | M_Stop \<Rightarrow> set_flag (s\<lparr>main_thread := M_Notify\<rparr>)
      | M_Notify \<Rightarrow> notify_all (s\<lparr>main_thread := M_Join\<rparr>)
      | M_Join \<Rightarrow>
          if list_all (\<lambda>pc. pc = S_Done) (sensors s) \<and> logger s = L_Done
          then s\<lparr>main_thread := M_Done\<rparr> else s
      | M_Done \<Rightarrow> s)"

text \<open>Lines 111 and 112 together: what the specification calls \<open>signal_stop\<close>.\<close>

definition signal_stop :: "world \<Rightarrow> world" where
  "signal_stop s = notify_all (set_flag s)"

text \<open>\<open>d\<close> milliseconds pass: every sleep and every timed wait has \<open>d\<close> less to go.\<close>

definition sleep_on :: "nat \<Rightarrow> sensor_pc \<Rightarrow> sensor_pc" where
  "sleep_on d pc = (case pc of S_Sleep n \<Rightarrow> S_Sleep (n - d) | _ \<Rightarrow> pc)"

definition elapse :: "nat \<Rightarrow> world \<Rightarrow> world" where
  "elapse d s =
     s\<lparr>now := now s + d,
       sensors := map (sleep_on d) (sensors s),
       logger := (case logger s of L_Wait n \<Rightarrow> L_Wait (n - d) | pc \<Rightarrow> pc),
       main_thread := (case main_thread s of M_Sleep n \<Rightarrow> M_Sleep (n - d) | pc \<Rightarrow> pc)\<rparr>"

text \<open>
  A schedule is a list of events: a thread takes its next step (a thread that is
  asleep or has returned stays as it is), time passes, or the logger's wait ends
  spuriously. Once the behaviour is undefined nothing more is said: the state stays.
\<close>

datatype event = Sensor nat | Logger | Main | Elapse nat | Spurious

definition step :: "(nat \<Rightarrow> nat \<Rightarrow> cint) \<Rightarrow> event \<Rightarrow> world \<Rightarrow> world" where
  "step gen e s =
     (if undefined_behaviour s then s
      else case e of
        Sensor i \<Rightarrow> sensor_task gen i s
      | Logger \<Rightarrow> logger_task s
      | Main \<Rightarrow> main s
      | Elapse d \<Rightarrow> elapse d s
      | Spurious \<Rightarrow> spurious s)"

definition run :: "(nat \<Rightarrow> nat \<Rightarrow> cint) \<Rightarrow> event list \<Rightarrow> world \<Rightarrow> world" where
  "run gen es s = fold (step gen) es s"

section \<open>Reading a run\<close>


text \<open>
  From a history: the readings pushed, in order; the batches the swaps took out, in
  order; the readings pushed by sensor \<open>i\<close>.
\<close>

fun pushed :: "act list \<Rightarrow> TrafficData list" where
  "pushed [] = []"
| "pushed (Pushed i d # h) = d # pushed h"
| "pushed (Swapped b # h) = pushed h"

fun batches :: "act list \<Rightarrow> TrafficData list list" where
  "batches [] = []"
| "batches (Pushed i d # h) = batches h"
| "batches (Swapped b # h) = b # batches h"

fun pushed_by :: "nat \<Rightarrow> act list \<Rightarrow> TrafficData list" where
  "pushed_by i [] = []"
| "pushed_by i (Pushed j d # h) = (if j = i then d # pushed_by i h else pushed_by i h)"
| "pushed_by i (Swapped b # h) = pushed_by i h"

fun push_below :: "nat \<Rightarrow> act \<Rightarrow> bool" where
  "push_below N (Pushed i d) = (i < N)"
| "push_below N (Swapped b) = False"

text \<open>What the history gained between an earlier state and a later one.\<close>

definition since :: "world \<Rightarrow> world \<Rightarrow> act list" where
  "since s s' = drop (length (history s)) (history s')"

text \<open>
  Between \<open>s\<close> and \<open>s'\<close> nothing was swapped: the history gained \<open>h\<close>, all of it pushes
  of the sensors, and the buffer gained the readings of \<open>h\<close>.
\<close>

definition quiet :: "world \<Rightarrow> act list \<Rightarrow> world \<Rightarrow> bool" where
  "quiet s h s' \<longleftrightarrow>
     history s' = history s @ h \<and> batches h = []
     \<and> sensor_data s' = sensor_data s @ pushed h
     \<and> length (sensors s') = length (sensors s)
     \<and> list_all (push_below (length (sensors s))) h"

text \<open>The milliseconds that pass in a schedule.\<close>

fun elapsed :: "event list \<Rightarrow> nat" where
  "elapsed [] = 0"
| "elapsed (Elapse d # es) = d + elapsed es"
| "elapsed (e # es) = elapsed es"








section \<open>Example inputs\<close>

definition above_range :: "TrafficData list" where
  "above_range = [\<lparr>sensor_id = 0, density = 150, timestamp = 0\<rparr>]"

definition spec_batch :: "TrafficData list" where
  "spec_batch =
     [\<lparr>sensor_id = 0, density = 10, timestamp = 1500\<rparr>,
      \<lparr>sensor_id = 1, density = 50, timestamp = 1500\<rparr>,
      \<lparr>sensor_id = 2, density = 90, timestamp = 1500\<rparr>]"

text \<open>A generator: sensor 0 reads 10, sensor 1 reads 50, the others read 90.\<close>

definition spec_gen :: "nat \<Rightarrow> nat \<Rightarrow> cint" where
  "spec_gen i k = (if i = 0 then 10 else if i = 1 then 50 else 90)"

text \<open>
  Schedules. \<open>to_wait\<close>: the logger opens the file and waits, three sensors sleep,
  sample and push, and the timeout of the wait is reached. \<open>to_swap\<close> goes on to the
  swap, \<open>to_report\<close> to the report.
\<close>

definition to_wait :: "event list" where
  "to_wait =
     [Logger, Logger, Logger, Sensor 0, Sensor 1, Sensor 2, Elapse 1500,
      Sensor 0, Sensor 0, Sensor 1, Sensor 1, Sensor 2, Sensor 2, Elapse 1500]"

definition to_swap :: "event list" where
  "to_swap = to_wait @ [Logger]"

definition to_report :: "event list" where
  "to_report = to_wait @ [Logger, Logger]"

text \<open>The logger reaches its swap with an empty buffer.\<close>

definition to_empty_swap :: "event list" where
  "to_empty_swap = [Logger, Logger, Logger, Elapse 3000, Logger]"

text \<open>
  A whole run of the program: every thread starts, sixty seconds pass (in which the
  sensors and the logger are not scheduled), the main thread sets the flag and
  notifies, the logger wakes, swaps, reports and returns, every sensor wakes, samples,
  pushes, notifies and returns, and the main thread returns.
\<close>

definition whole_run :: "event list" where
  "whole_run =
     [Logger, Logger, Logger,
      Sensor 0, Sensor 1, Sensor 2, Sensor 3, Sensor 4,
      Elapse 60000, Main, Main, Main,
      Logger, Logger, Logger,
      Sensor 0, Sensor 0, Sensor 0, Sensor 0,
      Sensor 1, Sensor 1, Sensor 1, Sensor 1,
      Sensor 2, Sensor 2, Sensor 2, Sensor 2,
      Sensor 3, Sensor 3, Sensor 3, Sensor 3,
      Sensor 4, Sensor 4, Sensor 4, Sensor 4,
      Main]"

text \<open>
  The flag is set while the logger is between its swap and its report, after sensor 0
  has pushed a reading: \<open>stop_pending\<close> ends with the logger at the head of its loop,
  \<open>late_stop\<close> with its test of the flag.
\<close>

definition stop_pending :: "event list" where
  "stop_pending =
     [Logger, Logger, Logger, Sensor 0, Elapse 60000, Logger, Logger,
      Sensor 0, Sensor 0, Main, Main, Main, Logger]"

definition late_stop :: "event list" where
  "late_stop = stop_pending @ [Logger]"

text \<open>Sensor 0 starts its sleep just before the main thread sets the flag.\<close>

definition asleep_at_stop :: "event list" where
  "asleep_at_stop = [Elapse 60000, Sensor 0, Main, Main, Main]"

text \<open>All five sensors asleep, then awake; each samples and pushes once.\<close>

definition all_asleep :: "event list" where
  "all_asleep =
     [Logger, Logger, Logger, Sensor 0, Sensor 1, Sensor 2, Sensor 3, Sensor 4,
      Elapse 1500]"

definition each_pushes :: "event list" where
  "each_pushes =
     [Sensor 0, Sensor 1, Sensor 0, Sensor 2, Sensor 1, Sensor 3, Sensor 2,
      Sensor 4, Sensor 3, Sensor 4]"

section \<open>One cycle: the loop, the division, the line of the log file\<close>

lemma sint_std_min: "sint (std_min a b) = min (sint a) (sint b)"
  by (simp add: std_min_def word_sless_alt min_def)

lemma sint_std_max: "sint (std_max a b) = max (sint a) (sint b)"
  by (simp add: std_max_def word_sless_alt max_def)

lemma for_each_cerr:
  "cerr (for_each ds t) =
     cerr t @ map (\<lambda>d. Alert (sensor_id d) (density d))
                (filter (\<lambda>d. CONGESTION_THRESHOLD <s density d) ds)"
  by (induction ds arbitrary: t) simp_all

lemma Min_insert_min:
  "finite S \<Longrightarrow> Min (insert (min a b) S) = Min (insert a (insert (b::int) S))"
  by (cases "S = {}") (simp_all add: min.assoc)

lemma Max_insert_max:
  "finite S \<Longrightarrow> Max (insert (max a b) S) = Max (insert a (insert (b::int) S))"
  by (cases "S = {}") (simp_all add: max.assoc)

lemma for_each_min_val:
  "sint (min_val (for_each ds t)) =
     Min (insert (sint (min_val t)) ((\<lambda>d. sint (density d)) ` set ds))"
  by (induction ds arbitrary: t) (simp_all add: sint_std_min Min_insert_min)

lemma for_each_max_val:
  "sint (max_val (for_each ds t)) =
     Max (insert (sint (max_val t)) ((\<lambda>d. sint (density d)) ` set ds))"
  by (induction ds arbitrary: t) (simp_all add: sint_std_max Max_insert_max)







lemma aggregate_written:
  "fst (aggregate ds) =
     map (\<lambda>d. Alert (sensor_id d) (density d)) (filter (\<lambda>d. 80 < sint (density d)) ds)
   \<or> (\<exists>a mn mx. fst (aggregate ds) =
     map (\<lambda>d. Alert (sensor_id d) (density d)) (filter (\<lambda>d. 80 < sint (density d)) ds)
       @ [LogLine a mn mx])"
  by (simp add: aggregate_def Let_def for_each_cerr tally0_def CONGESTION_THRESHOLD_def
      word_sless_alt)

lemma aggregate_line:
  assumes "ds \<noteq> []" "\<not> snd (aggregate ds)"
  shows "fst (aggregate ds) =
     map (\<lambda>d. Alert (sensor_id d) (density d)) (filter (\<lambda>d. 80 < sint (density d)) ds)
     @ [LogLine (int_div (total (for_each ds tally0)) (size_as_int ds))
          (min_val (for_each ds tally0)) (max_val (for_each ds tally0))]"
  using assms
  by (simp add: aggregate_def Let_def for_each_cerr tally0_def CONGESTION_THRESHOLD_def
      word_sless_alt split: if_splits)

lemmas aggregate_eval =
  aggregate_def tally0_def std_min_def std_max_def CONGESTION_THRESHOLD_def
  size_as_int_def INT_MIN_def int_div_def signed_divide_int_def word_sless_alt

section \<open>The extremes of a batch\<close>

text \<open>
  C9. For every non-empty batch (whose division is defined, so that the line of the
  log file is written) that line has as its minimum the smaller of 100 and the
  smallest value of the batch, and as its maximum the larger of 0 and the largest
  value; when all values lie in \<open>[0, 100]\<close> both are exact.
\<close>

theorem extremes_clamped:
  assumes "ds \<noteq> []" "\<not> snd (aggregate ds)"
  shows "\<exists>a mn mx.
           fst (aggregate ds) =
             map (\<lambda>d. Alert (sensor_id d) (density d))
               (filter (\<lambda>d. 80 < sint (density d)) ds) @ [LogLine a mn mx]
         \<and> sint mn = min 100 (Min ((\<lambda>d. sint (density d)) ` set ds))
         \<and> sint mx = max 0 (Max ((\<lambda>d. sint (density d)) ` set ds))
         \<and> ((\<forall>d \<in> set ds. 0 \<le> sint (density d) \<and> sint (density d) \<le> 100) \<longrightarrow>
              sint mn = Min ((\<lambda>d. sint (density d)) ` set ds)
            \<and> sint mx = Max ((\<lambda>d. sint (density d)) ` set ds))"
proof -
  let ?S = "(\<lambda>d. sint (density d)) ` set ds"
  let ?t = "for_each ds tally0"
  have fin: "finite ?S" "?S \<noteq> {}" using assms(1) by simp_all
  have mn: "sint (min_val ?t) = min 100 (Min ?S)"
    using fin by (simp add: for_each_min_val tally0_def)
  have mx: "sint (max_val ?t) = max 0 (Max ?S)"
    using fin by (simp add: for_each_max_val tally0_def)
  have exact: "min 100 (Min ?S) = Min ?S \<and> max 0 (Max ?S) = Max ?S"
    if "\<forall>d \<in> set ds. 0 \<le> sint (density d) \<and> sint (density d) \<le> 100"
  proof -
    from that have "\<forall>x \<in> ?S. 0 \<le> x \<and> x \<le> 100" by auto
    with fin have "Min ?S \<le> 100" "0 \<le> Max ?S"
      by (meson Min_in order.trans, meson Max_in order.trans)
    then show ?thesis by simp
  qed
  from aggregate_line [OF assms] mn mx exact show ?thesis
    by (intro exI conjI impI) (assumption, simp_all)
qed

theorem extremes_clamped_witness:
  "above_range \<noteq> [] \<and> \<not> snd (aggregate above_range)
   \<and> (\<exists>a mn mx. fst (aggregate above_range) = [Alert 0 150, LogLine a mn mx]
        \<and> sint mn = 100 \<and> sint mx = 150)
   \<and> spec_batch \<noteq> [] \<and> \<not> snd (aggregate spec_batch)
   \<and> list_all (\<lambda>d. 0 \<le> sint (density d) \<and> sint (density d) \<le> 100) spec_batch
   \<and> (\<exists>a mn mx. fst (aggregate spec_batch) = [Alert 2 90, LogLine a mn mx]
        \<and> sint mn = 10 \<and> sint mx = 90)"
proof -
  have h: "above_range \<noteq> []" "\<not> snd (aggregate above_range)"
    by (simp_all add: above_range_def aggregate_eval)
  have k: "spec_batch \<noteq> []" "\<not> snd (aggregate spec_batch)"
    by (simp_all add: spec_batch_def aggregate_eval)
  from extremes_clamped [OF h] extremes_clamped [OF k] show ?thesis
    using h k by (auto simp add: spec_batch_def above_range_def)
qed

section \<open>Runs: what every step preserves\<close>

lemma pushed_append: "pushed (h @ k) = pushed h @ pushed k"
  by (induction h rule: pushed.induct) simp_all

lemma batches_append: "batches (h @ k) = batches h @ batches k"
  by (induction h rule: batches.induct) simp_all


lemma run_Nil: "run gen [] s = s"
  by (simp add: run_def)

lemma run_Cons: "run gen (e # es) s = run gen es (step gen e s)"
  by (simp add: run_def)

lemmas thread_defs = sensor_task_def logger_task_def main_def elapse_def spurious_def
  notify_all_def set_flag_def

lemmas pc_splits = event.split sensor_pc.split logger_pc.split main_pc.split

lemma replicate_SENSOR_COUNT: "replicate SENSOR_COUNT x = [x, x, x, x, x]"
  by (simp add: SENSOR_COUNT_def eval_nat_numeral)

lemmas run_eval = run_def step_def thread_defs init_def sleep_on_def replicate_SENSOR_COUNT
  SENSOR_UPDATE_INTERVAL_def AGGREGATION_INTERVAL_def RUN_DURATION_def aggregate_eval
  spec_gen_def

lemma step_length_sensors: "length (sensors (step gen e s)) = length (sensors s)"
  by (simp add: step_def thread_defs split: pc_splits)




lemma step_history: "\<exists>h. history (step gen e s) = history s @ h"
  by (simp add: step_def thread_defs split: pc_splits)

lemma run_history: "\<exists>h. history (run gen es s) = history s @ h"
proof (induction es arbitrary: s)
  case Nil
  show ?case by (simp add: run_Nil)
next
  case (Cons e es)
  from step_history obtain h where "history (step gen e s) = history s @ h" ..
  moreover from Cons.IH obtain k
    where "history (run gen es (step gen e s)) = history (step gen e s) @ k" ..
  ultimately show ?case by (simp add: run_Cons)
qed


subsection \<open>The buffer loses nothing and repeats nothing\<close>

lemma step_conserves:
  "pushed (history s) = concat (batches (history s)) @ sensor_data s \<Longrightarrow>
   pushed (history (step gen e s)) =
     concat (batches (history (step gen e s))) @ sensor_data (step gen e s)"
  by (simp add: step_def thread_defs pushed_append batches_append split: pc_splits)

lemma run_conserves:
  "pushed (history s) = concat (batches (history s)) @ sensor_data s \<Longrightarrow>
   pushed (history (run gen es s)) =
     concat (batches (history (run gen es s))) @ sensor_data (run gen es s)"
  by (induction es arbitrary: s) (simp_all add: run_Nil run_Cons step_conserves)

lemma init_conserves:
  "pushed (history (init opens)) =
     concat (batches (history (init opens))) @ sensor_data (init opens)"
  by (simp add: init_def)

subsection \<open>Stretches of a run without a swap\<close>

lemma step_quiet:
  assumes "e \<noteq> Logger \<or> logger s = L_Done"
  shows "\<exists>h. quiet s h (step gen e s)"
proof (cases "undefined_behaviour s")
  case True
  then have "quiet s [] (step gen e s)" by (simp add: quiet_def step_def)
  then show ?thesis ..
next
  case False
  show ?thesis
  proof (cases e)
    case (Sensor i)
    show ?thesis
    proof (cases "i < length (sensors s)")
      case out: False
      with False Sensor have "quiet s [] (step gen e s)"
        by (simp add: quiet_def step_def sensor_task_def)
      then show ?thesis ..
    next
      case inside: True
      show ?thesis
      proof (cases "sensors s ! i")
        case (S_Push d)
        with False Sensor inside have "quiet s [Pushed i d] (step gen e s)"
          by (simp add: quiet_def step_def sensor_task_def)
        then show ?thesis ..
      next
        case S_Check
        with False Sensor inside have "quiet s [] (step gen e s)"
          by (simp add: quiet_def step_def sensor_task_def)
        then show ?thesis ..
      next
        case (S_Sleep n)
        with False Sensor inside have "quiet s [] (step gen e s)"
          by (simp add: quiet_def step_def sensor_task_def)
        then show ?thesis ..
      next
        case S_Notify
        with False Sensor inside have "quiet s [] (step gen e s)"
          by (simp add: quiet_def step_def sensor_task_def notify_all_def
              split: logger_pc.split)
        then show ?thesis ..
      next
        case S_Done
        with False Sensor inside have "quiet s [] (step gen e s)"
          by (simp add: quiet_def step_def sensor_task_def)
        then show ?thesis ..
      qed
    qed
  next
    case Logger
    with assms False have "quiet s [] (step gen e s)"
      by (simp add: quiet_def step_def logger_task_def)
    then show ?thesis ..
  next
    case Main
    with False have "quiet s [] (step gen e s)"
      by (simp add: quiet_def step_def main_def notify_all_def set_flag_def
          split: main_pc.split logger_pc.split)
    then show ?thesis ..
  next
    case (Elapse d)
    with False have "quiet s [] (step gen e s)"
      by (simp add: quiet_def step_def elapse_def)
    then show ?thesis ..
  next
    case Spurious
    with False have "quiet s [] (step gen e s)"
      by (simp add: quiet_def step_def spurious_def split: logger_pc.split)
    then show ?thesis ..
  qed
qed

lemma quiet_trans:
  assumes "quiet s h s'" "quiet s' k s''"
  shows "quiet s (h @ k) s''"
  using assms by (auto simp add: quiet_def pushed_append batches_append)

lemma step_logger_done:
  "logger s = L_Done \<Longrightarrow> logger (step gen e s) = L_Done \<and> written (step gen e s) = written s"
  by (simp add: step_def thread_defs split: pc_splits)

lemma run_logger_done:
  "logger s = L_Done \<Longrightarrow> logger (run gen es s) = L_Done \<and> written (run gen es s) = written s"
  by (induction es arbitrary: s) (simp_all add: run_Nil run_Cons step_logger_done)

lemma run_quiet:
  assumes "Logger \<notin> set es \<or> logger s = L_Done"
  shows "\<exists>h. quiet s h (run gen es s)"
  using assms
proof (induction es arbitrary: s)
  case Nil
  have "quiet s [] (run gen [] s)" by (simp add: quiet_def run_Nil)
  then show ?case ..
next
  case (Cons e es)
  from Cons.prems have "e \<noteq> Logger \<or> logger s = L_Done" by auto
  from step_quiet [OF this] obtain h where h: "quiet s h (step gen e s)" ..
  from Cons.prems have "Logger \<notin> set es \<or> logger (step gen e s) = L_Done"
    using step_logger_done [of s gen e] by auto
  from Cons.IH [OF this] obtain k
    where k: "quiet (step gen e s) k (run gen es (step gen e s))" ..
  from quiet_trans [OF h k] have "quiet s (h @ k) (run gen (e # es) s)"
    by (simp add: run_Cons)
  then show ?case ..
qed

lemma quiet_since: "quiet s h s' \<Longrightarrow> since s s' = h"
  by (simp add: quiet_def since_def)

lemma step_quiet_or_swap:
  "(\<exists>h. quiet s h (step gen e s)) \<or> batches (since s (step gen e s)) = [sensor_data s]"
proof (cases "e = Logger \<and> logger s = L_Swap \<and> \<not> undefined_behaviour s")
  case True
  then have "batches (since s (step gen e s)) = [sensor_data s]"
    by (simp add: step_def logger_task_def since_def)
  then show ?thesis ..
next
  case False
  show ?thesis
  proof (cases "undefined_behaviour s")
    case True
    then have "quiet s [] (step gen e s)" by (simp add: quiet_def step_def)
    then show ?thesis by blast
  next
    case ok: False
    show ?thesis
    proof (cases "e = Logger")
      case True
      with False ok have "quiet s [] (step gen e s)"
        by (cases "logger s") (simp_all add: quiet_def step_def logger_task_def)
      then show ?thesis by blast
    next
      case False
      then have "e \<noteq> Logger \<or> logger s = L_Done" by simp
      from step_quiet [OF this] show ?thesis by blast
    qed
  qed
qed

lemma since_step_run:
  "since s (run gen es (step gen e s)) =
     since s (step gen e s) @ since (step gen e s) (run gen es (step gen e s))"
proof -
  from step_history obtain a where a: "history (step gen e s) = history s @ a" ..
  from run_history obtain b
    where b: "history (run gen es (step gen e s)) = history (step gen e s) @ b" ..
  from a b show ?thesis by (simp add: since_def)
qed

lemma run_no_swap:
  "batches (since s (run gen es s)) = [] \<Longrightarrow> \<exists>h. quiet s h (run gen es s)"
proof (induction es arbitrary: s)
  case Nil
  have "quiet s [] (run gen [] s)" by (simp add: quiet_def run_Nil)
  then show ?case ..
next
  case (Cons e es)
  from Cons.prems since_step_run [of s gen es e]
  have none: "batches (since s (step gen e s)) = []"
    "batches (since (step gen e s) (run gen es (step gen e s))) = []"
    by (simp_all add: run_Cons batches_append)
  with step_quiet_or_swap [of s gen e] obtain h where h: "quiet s h (step gen e s)"
    by auto
  from Cons.IH [OF none(2)] obtain k
    where k: "quiet (step gen e s) k (run gen es (step gen e s))" ..
  from quiet_trans [OF h k] have "quiet s (h @ k) (run gen (e # es) s)"
    by (simp add: run_Cons)
  then show ?case ..
qed


lemma count_by_sensor:
  "list_all (push_below N) h \<Longrightarrow> (\<Sum>i<N. length (pushed_by i h)) = length (pushed h)"
proof (induction h)
  case Nil
  show ?case by simp
next
  case (Cons a h)
  show ?case
  proof (cases a)
    case (Pushed j d)
    with Cons.prems have j: "j < N" by simp
    have "(\<Sum>i<N. length (pushed_by i (a # h))) =
        (\<Sum>i<N. (if j = i then 1 else 0) + length (pushed_by i h))"
      using Pushed by (intro sum.cong) simp_all
    also have "\<dots> = (\<Sum>i<N. if j = i then 1 else 0) + (\<Sum>i<N. length (pushed_by i h))"
      by (simp add: sum.distrib)
    also have "(\<Sum>i<N. if j = i then 1 else (0::nat)) = 1"
      using j by simp
    finally show ?thesis using Cons Pushed by simp
  next
    case (Swapped b)
    with Cons.prems show ?thesis by simp
  qed
qed

lemma equal_shares:
  assumes "list_all (push_below N) h" "\<forall>i<N. length (pushed_by i h) = K"
  shows "length (pushed h) = N * K"
proof -
  from assms(2) have "(\<Sum>i<N. length (pushed_by i h)) = (\<Sum>i<N. K)" by simp
  with count_by_sensor [OF assms(1)] show ?thesis by simp
qed

subsection \<open>A sensor once the flag is set\<close>







subsection \<open>A sensor asleep\<close>

lemma step_asleep:
  assumes "i < length (sensors s)" "sensors s ! i = S_Sleep n" "elapsed [e] < n"
  shows "\<exists>m. sensors (step gen e s) ! i = S_Sleep m \<and> n - elapsed [e] \<le> m"
proof (cases "undefined_behaviour s")
  case True
  with assms show ?thesis by (simp add: step_def)
next
  case False
  show ?thesis
  proof (cases e)
    case (Sensor j)
    show ?thesis
    proof (cases "j = i")
      case True
      with False Sensor assms show ?thesis by (simp add: step_def sensor_task_def)
    next
      case other: False
      with False Sensor assms show ?thesis
        by (cases "sensors s ! j")
          (simp_all add: step_def sensor_task_def notify_all_def split: logger_pc.split)
    qed
  next
    case Logger
    with False assms show ?thesis
      by (simp add: step_def logger_task_def split: logger_pc.split)
  next
    case Main
    with False assms show ?thesis
      by (simp add: step_def main_def notify_all_def set_flag_def
          split: main_pc.split logger_pc.split)
  next
    case (Elapse d)
    with False assms show ?thesis by (simp add: step_def elapse_def sleep_on_def)
  next
    case Spurious
    with False assms show ?thesis by (simp add: step_def spurious_def split: logger_pc.split)
  qed
qed

lemma elapsed_Cons: "elapsed (e # es) = elapsed [e] + elapsed es"
  by (cases e) simp_all

lemma run_asleep:
  assumes "i < length (sensors s)" "sensors s ! i = S_Sleep n" "elapsed es < n"
  shows "\<exists>m. sensors (run gen es s) ! i = S_Sleep m \<and> n - elapsed es \<le> m"
  using assms
proof (induction es arbitrary: s n)
  case Nil
  then show ?case by (simp add: run_Nil)
next
  case (Cons e es)
  from Cons.prems have lt: "elapsed [e] < n" "elapsed es < n - elapsed [e]"
    using elapsed_Cons [of e es] by simp_all
  from step_asleep [OF Cons.prems(1,2) lt(1)] obtain k
    where k: "sensors (step gen e s) ! i = S_Sleep k" "n - elapsed [e] \<le> k" by blast
  have len: "i < length (sensors (step gen e s))"
    using Cons.prems(1) by (simp add: step_length_sensors)
  from lt(2) k(2) have "elapsed es < k" by simp
  from Cons.IH [OF len k(1) this] obtain m
    where m: "sensors (run gen es (step gen e s)) ! i = S_Sleep m" "k - elapsed es \<le> m"
    by blast
  from k(2) m(2) have "n - elapsed (e # es) \<le> m"
    using elapsed_Cons [of e es] by simp
  with m(1) show ?case by (simp add: run_Cons)
qed

subsection \<open>The main thread and the logger\<close>








section \<open>Example runs\<close>

lemma run_append: "run gen (es @ fs) s = run gen fs (run gen es s)"
  by (simp add: run_def)

lemma run_to_wait:
  "run spec_gen to_wait (init True) =
     \<lparr>sensor_data =
     [\<lparr>sensor_id = 0, density = 10, timestamp = 1500\<rparr>,
     \<lparr>sensor_id = 1, density = 50, timestamp = 1500\<rparr>,
     \<lparr>sensor_id = 2, density = 90, timestamp = 1500\<rparr>],
     shutdown_flag = False,
     sensors = [S_Notify, S_Notify, S_Notify, S_Check, S_Check],
     drawn = [1, 1, 1, 0, 0], logger = L_Wait 0, local_data = [],
     main_thread = M_Sleep 57000, now = 3000, log_opens = True, written = [],
     history =
     [Pushed 0 \<lparr>sensor_id = 0, density = 10, timestamp = 1500\<rparr>,
     Pushed 1 \<lparr>sensor_id = 1, density = 50, timestamp = 1500\<rparr>,
     Pushed 2 \<lparr>sensor_id = 2, density = 90, timestamp = 1500\<rparr>],
     undefined_behaviour = False\<rparr>"
  by (simp add: to_wait_def run_eval)


lemma run_to_empty_swap:
  "run spec_gen to_empty_swap (init True) =
     \<lparr>sensor_data = [], shutdown_flag = False,
     sensors = [S_Check, S_Check, S_Check, S_Check, S_Check],
     drawn = [0, 0, 0, 0, 0], logger = L_Swap, local_data = [],
     main_thread = M_Sleep 57000, now = 3000, log_opens = True, written = [],
     history = [], undefined_behaviour = False\<rparr>"
  by (simp add: to_empty_swap_def run_eval)

lemma run_whole_run:
  "run spec_gen whole_run (init True) =
     \<lparr>sensor_data =
     [\<lparr>sensor_id = 0, density = 10, timestamp = 60000\<rparr>,
     \<lparr>sensor_id = 1, density = 50, timestamp = 60000\<rparr>,
     \<lparr>sensor_id = 2, density = 90, timestamp = 60000\<rparr>,
     \<lparr>sensor_id = 3, density = 90, timestamp = 60000\<rparr>,
     \<lparr>sensor_id = 4, density = 90, timestamp = 60000\<rparr>],
     shutdown_flag = True,
     sensors = [S_Done, S_Done, S_Done, S_Done, S_Done],
     drawn = [1, 1, 1, 1, 1], logger = L_Done, local_data = [],
     main_thread = M_Done, now = 60000, log_opens = True, written = [],
     history =
     [Swapped [],
     Pushed 0 \<lparr>sensor_id = 0, density = 10, timestamp = 60000\<rparr>,
     Pushed 1 \<lparr>sensor_id = 1, density = 50, timestamp = 60000\<rparr>,
     Pushed 2 \<lparr>sensor_id = 2, density = 90, timestamp = 60000\<rparr>,
     Pushed 3 \<lparr>sensor_id = 3, density = 90, timestamp = 60000\<rparr>,
     Pushed 4 \<lparr>sensor_id = 4, density = 90, timestamp = 60000\<rparr>],
     undefined_behaviour = False\<rparr>"
  by (simp add: whole_run_def run_eval)

lemma run_stop_pending:
  "run spec_gen stop_pending (init True) =
     \<lparr>sensor_data = [\<lparr>sensor_id = 0, density = 10, timestamp = 60000\<rparr>],
     shutdown_flag = True,
     sensors = [S_Notify, S_Check, S_Check, S_Check, S_Check],
     drawn = [1, 0, 0, 0, 0], logger = L_Check, local_data = [],
     main_thread = M_Join, now = 60000, log_opens = True, written = [],
     history =
     [Swapped [],
     Pushed 0 \<lparr>sensor_id = 0, density = 10, timestamp = 60000\<rparr>],
     undefined_behaviour = False\<rparr>"
  by (simp add: stop_pending_def run_eval)

lemma run_asleep_at_stop:
  "run spec_gen asleep_at_stop (init True) =
     \<lparr>sensor_data = [], shutdown_flag = True,
     sensors = [S_Sleep 1500, S_Check, S_Check, S_Check, S_Check],
     drawn = [0, 0, 0, 0, 0], logger = L_Open, local_data = [],
     main_thread = M_Join, now = 60000, log_opens = True, written = [],
     history = [], undefined_behaviour = False\<rparr>"
  by (simp add: asleep_at_stop_def run_eval)

lemma run_all_asleep:
  "run spec_gen all_asleep (init True) =
     \<lparr>sensor_data = [], shutdown_flag = False,
     sensors = [S_Sleep 0, S_Sleep 0, S_Sleep 0, S_Sleep 0, S_Sleep 0],
     drawn = [0, 0, 0, 0, 0], logger = L_Wait 1500, local_data = [],
     main_thread = M_Sleep 58500, now = 1500, log_opens = True, written = [],
     history = [], undefined_behaviour = False\<rparr>"
  by (simp add: all_asleep_def run_eval)

lemma run_each_pushes:
  "run spec_gen each_pushes
     \<lparr>sensor_data = [], shutdown_flag = False,
     sensors = [S_Sleep 0, S_Sleep 0, S_Sleep 0, S_Sleep 0, S_Sleep 0],
     drawn = [0, 0, 0, 0, 0], logger = L_Wait 1500, local_data = [],
     main_thread = M_Sleep 58500, now = 1500, log_opens = True, written = [],
     history = [], undefined_behaviour = False\<rparr> =
     \<lparr>sensor_data =
     [\<lparr>sensor_id = 0, density = 10, timestamp = 1500\<rparr>,
     \<lparr>sensor_id = 1, density = 50, timestamp = 1500\<rparr>,
     \<lparr>sensor_id = 2, density = 90, timestamp = 1500\<rparr>,
     \<lparr>sensor_id = 3, density = 90, timestamp = 1500\<rparr>,
     \<lparr>sensor_id = 4, density = 90, timestamp = 1500\<rparr>],
     shutdown_flag = False,
     sensors = [S_Notify, S_Notify, S_Notify, S_Notify, S_Notify],
     drawn = [1, 1, 1, 1, 1], logger = L_Wait 1500, local_data = [],
     main_thread = M_Sleep 58500, now = 1500, log_opens = True, written = [],
     history =
     [Pushed 0 \<lparr>sensor_id = 0, density = 10, timestamp = 1500\<rparr>,
     Pushed 1 \<lparr>sensor_id = 1, density = 50, timestamp = 1500\<rparr>,
     Pushed 2 \<lparr>sensor_id = 2, density = 90, timestamp = 1500\<rparr>,
     Pushed 3 \<lparr>sensor_id = 3, density = 90, timestamp = 1500\<rparr>,
     Pushed 4 \<lparr>sensor_id = 4, density = 90, timestamp = 1500\<rparr>],
     undefined_behaviour = False\<rparr>"
  by (simp add: each_pushes_def run_eval)

lemma all_below_5:
  "(\<forall>i<5. P i) \<longleftrightarrow> P 0 \<and> P 1 \<and> P 2 \<and> P 3 \<and> P (4::nat)"
proof -
  have "i < 5 \<longleftrightarrow> i = 0 \<or> i = 1 \<or> i = 2 \<or> i = 3 \<or> i = 4" for i :: nat
    by arith
  then show ?thesis by auto
qed

lemmas step_eval = run_def step_def thread_defs sleep_on_def
  SENSOR_UPDATE_INTERVAL_def AGGREGATION_INTERVAL_def aggregate_eval spec_gen_def
  signal_stop_def since_def

section \<open>The summary of a batch\<close>













section \<open>Alerts and the empty cycle\<close>

text \<open>
  C5. In every cycle, the report writes one alert for each reading of the batch whose
  density is strictly above 80, in the order of the batch and with that reading's
  sensor and density, and nothing for the other readings; all of them come before the
  line of the log file, which is the only other thing the cycle writes.
\<close>

theorem alerts_then_line:
  assumes "logger s = L_Report" "\<not> undefined_behaviour s"
  shows "\<exists>line. written (step gen Logger s) =
           written s
           @ map (\<lambda>d. Alert (sensor_id d) (density d))
               (filter (\<lambda>d. 80 < sint (density d)) (local_data s))
           @ line
         \<and> (line = [] \<or> (\<exists>a mn mx. line = [LogLine a mn mx]))"
proof -
  have w: "written (step gen Logger s) = written s @ fst (aggregate (local_data s))"
    using assms by (simp add: step_def logger_task_def)
  from aggregate_written [of "local_data s"] show ?thesis
  proof
    assume "fst (aggregate (local_data s)) =
      map (\<lambda>d. Alert (sensor_id d) (density d))
        (filter (\<lambda>d. 80 < sint (density d)) (local_data s))"
    with w show ?thesis by simp
  next
    assume "\<exists>a mn mx. fst (aggregate (local_data s)) =
      map (\<lambda>d. Alert (sensor_id d) (density d))
        (filter (\<lambda>d. 80 < sint (density d)) (local_data s)) @ [LogLine a mn mx]"
    with w show ?thesis by auto
  qed
qed

theorem alerts_then_line_witness:
  "logger (run spec_gen to_report (init True)) = L_Report
   \<and> \<not> undefined_behaviour (run spec_gen to_report (init True))
   \<and> local_data (run spec_gen to_report (init True)) = spec_batch
   \<and> written (step spec_gen Logger (run spec_gen to_report (init True))) =
       [Alert 2 90, LogLine 50 10 90]"
proof -
  have r: "run spec_gen to_report (init True) =
      run spec_gen [Logger, Logger] (run spec_gen to_wait (init True))"
    by (simp add: to_report_def run_append)
  have h: "logger (run spec_gen to_report (init True)) = L_Report"
    "\<not> undefined_behaviour (run spec_gen to_report (init True))"
    unfolding r run_to_wait by (simp_all add: step_eval)
  from alerts_then_line [OF h, of spec_gen] show ?thesis
    unfolding r run_to_wait by (simp add: step_eval spec_batch_def)
qed

text \<open>
  C6. When the swap finds the buffer empty, the report writes nothing (no line of the
  log file, no alert) and the logger is back at the head of its loop; with the flag not
  set it goes on to wait for the aggregation interval, everything else unchanged.
\<close>

theorem empty_batch_writes_nothing:
  assumes "logger s = L_Swap" "sensor_data s = []" "\<not> undefined_behaviour s"
  shows "aggregate (local_data (step gen Logger s)) = ([], False)
       \<and> written (run gen [Logger, Logger] s) = written s
       \<and> logger (run gen [Logger, Logger] s) = L_Check
       \<and> (\<not> shutdown_flag s \<longrightarrow>
            run gen [Logger, Logger, Logger, Logger] s =
              s\<lparr>logger := L_Wait AGGREGATION_INTERVAL, local_data := [],
                history := history s @ [Swapped []]\<rparr>)"
  using assms by (simp add: run_def step_def logger_task_def aggregate_def)

theorem empty_batch_writes_nothing_witness:
  "logger (run spec_gen to_empty_swap (init True)) = L_Swap
   \<and> sensor_data (run spec_gen to_empty_swap (init True)) = []
   \<and> \<not> undefined_behaviour (run spec_gen to_empty_swap (init True))
   \<and> \<not> shutdown_flag (run spec_gen to_empty_swap (init True))
   \<and> written (run spec_gen [Logger, Logger] (run spec_gen to_empty_swap (init True))) = []
   \<and> logger (run spec_gen [Logger, Logger, Logger, Logger]
        (run spec_gen to_empty_swap (init True))) = L_Wait 3000"
proof -
  have h: "logger (run spec_gen to_empty_swap (init True)) = L_Swap"
    "sensor_data (run spec_gen to_empty_swap (init True)) = []"
    "\<not> undefined_behaviour (run spec_gen to_empty_swap (init True))"
    by (simp_all add: run_to_empty_swap)
  from empty_batch_writes_nothing [OF h, of spec_gen] show ?thesis
    by (simp add: run_to_empty_swap AGGREGATION_INTERVAL_def)
qed

section \<open>The buffer\<close>

text \<open>
  C2, as the code has it. The claim as stated fails for the readings pushed after the
  last swap of the logger: in the whole run below every thread has returned, five
  readings were pushed, the only batch a swap took out is empty, and the five readings
  are still in the buffer. No swap returns them.
\<close>

theorem readings_left_at_exit:
  "main_thread (run spec_gen whole_run (init True)) = M_Done
   \<and> logger (run spec_gen whole_run (init True)) = L_Done
   \<and> sensors (run spec_gen whole_run (init True)) = [S_Done, S_Done, S_Done, S_Done, S_Done]
   \<and> batches (history (run spec_gen whole_run (init True))) = [[]]
   \<and> length (pushed (history (run spec_gen whole_run (init True)))) = 5
   \<and> sensor_data (run spec_gen whole_run (init True)) =
       pushed (history (run spec_gen whole_run (init True)))"
  by (simp add: run_whole_run)

text \<open>
  C2, amended. Each swap takes out every reading stored at that moment and leaves the
  buffer empty. In every run of the program, the readings pushed so far are, in order,
  exactly the batches taken out so far followed by the buffer: each reading pushed is in
  one batch, once, or is still in the buffer, once (where it stays if the logger never
  swaps again). Over a stretch of a run in which nothing is swapped, the buffer gains
  exactly the readings pushed in it, and when each of the \<open>N\<close> sensors pushed \<open>K\<close>
  readings these are \<open>N * K\<close> readings, which the next swap takes out together.
\<close>

theorem buffer_conservation:
  "(logger s = L_Swap \<and> \<not> undefined_behaviour s \<longrightarrow>
      local_data (step gen Logger s) = sensor_data s
    \<and> sensor_data (step gen Logger s) = []
    \<and> since s (step gen Logger s) = [Swapped (sensor_data s)])
   \<and> pushed (history (run gen es (init opens))) =
       concat (batches (history (run gen es (init opens))))
       @ sensor_data (run gen es (init opens))
   \<and> (batches (since s (run gen es s)) = [] \<longrightarrow>
        sensor_data (run gen es s) = sensor_data s @ pushed (since s (run gen es s))
      \<and> ((\<forall>i < length (sensors s). length (pushed_by i (since s (run gen es s))) = K) \<longrightarrow>
           length (pushed (since s (run gen es s))) = length (sensors s) * K))"
proof (intro conjI impI)
  assume a: "logger s = L_Swap \<and> \<not> undefined_behaviour s"
  then show "local_data (step gen Logger s) = sensor_data s"
    by (simp add: step_def logger_task_def)
  from a show "sensor_data (step gen Logger s) = []"
    by (simp add: step_def logger_task_def)
  from a show "since s (step gen Logger s) = [Swapped (sensor_data s)]"
    by (simp add: step_def logger_task_def since_def)
next
  show "pushed (history (run gen es (init opens))) =
       concat (batches (history (run gen es (init opens))))
       @ sensor_data (run gen es (init opens))"
    using init_conserves by (rule run_conserves)
next
  assume "batches (since s (run gen es s)) = []"
  then have "\<exists>h. quiet s h (run gen es s)" by (rule run_no_swap)
  then obtain h where h: "quiet s h (run gen es s)" ..
  then have sh: "since s (run gen es s) = h" by (rule quiet_since)
  from h sh show "sensor_data (run gen es s) = sensor_data s @ pushed (since s (run gen es s))"
    by (simp add: quiet_def)
  assume "\<forall>i < length (sensors s). length (pushed_by i (since s (run gen es s))) = K"
  moreover from h sh
  have "list_all (push_below (length (sensors s))) (since s (run gen es s))"
    by (simp add: quiet_def)
  ultimately show "length (pushed (since s (run gen es s))) = length (sensors s) * K"
    by (rule equal_shares [rotated])
qed

theorem buffer_conservation_witness:
  "logger (run spec_gen to_swap (init True)) = L_Swap
   \<and> \<not> undefined_behaviour (run spec_gen to_swap (init True))
   \<and> local_data (step spec_gen Logger (run spec_gen to_swap (init True))) = spec_batch
   \<and> sensor_data (step spec_gen Logger (run spec_gen to_swap (init True))) = []
   \<and> batches (since (run spec_gen all_asleep (init True))
        (run spec_gen each_pushes (run spec_gen all_asleep (init True)))) = []
   \<and> list_all
       (\<lambda>i. length (pushed_by i (since (run spec_gen all_asleep (init True))
          (run spec_gen each_pushes (run spec_gen all_asleep (init True))))) = 1)
       [0, 1, 2, 3, 4]
   \<and> length (sensors (run spec_gen all_asleep (init True))) = 5
   \<and> length (sensor_data (run spec_gen each_pushes (run spec_gen all_asleep (init True)))) = 5 * 1"
proof -
  let ?s = "run spec_gen to_swap (init True)"
  let ?a = "run spec_gen all_asleep (init True)"
  have r: "?s = run spec_gen [Logger] (run spec_gen to_wait (init True))"
    by (simp add: to_swap_def run_append)
  have h: "logger ?s = L_Swap \<and> \<not> undefined_behaviour ?s"
    unfolding r run_to_wait by (simp add: step_eval)
  have l: "batches (since ?a (run spec_gen each_pushes ?a)) = []"
    unfolding run_all_asleep run_each_pushes by (simp add: since_def)
  have n: "length (sensors ?a) = 5" by (simp add: run_all_asleep)
  have k5: "\<forall>i<5. length (pushed_by i (since ?a (run spec_gen each_pushes ?a))) = 1"
    unfolding run_all_asleep run_each_pushes by (simp add: since_def all_below_5)
  have k: "\<forall>i < length (sensors ?a).
      length (pushed_by i (since ?a (run spec_gen each_pushes ?a))) = 1"
    unfolding n by (rule k5)
  from buffer_conservation [where s = ?s and gen = spec_gen and es = "[]" and opens = True and K = 1] h
  have a: "local_data (step spec_gen Logger ?s) = sensor_data ?s
      \<and> sensor_data (step spec_gen Logger ?s) = []" by simp
  from buffer_conservation [where s = ?a and gen = spec_gen and es = each_pushes and opens = True and K = 1] l k
  have b: "length (pushed (since ?a (run spec_gen each_pushes ?a))) = length (sensors ?a) * 1
      \<and> sensor_data (run spec_gen each_pushes ?a) =
          sensor_data ?a @ pushed (since ?a (run spec_gen each_pushes ?a))"
    by simp
  have d: "sensor_data ?s = spec_batch"
    unfolding r run_to_wait by (simp add: step_eval spec_batch_def)
  have c: "sensor_data ?a = []" by (simp add: run_all_asleep)
  from k5 have "list_all
       (\<lambda>i. length (pushed_by i (since ?a (run spec_gen each_pushes ?a))) = 1) [0, 1, 2, 3, 4]"
    by simp
  with a b c d h l n show ?thesis by simp
qed

section \<open>Shutdown\<close>





text \<open>
  C3, as the code has it. The claim as stated fails: the logger reads the flag at the
  head of its loop and returns from there without another swap. In the run below the
  flag is set while the logger is between its swap and its report; a reading pushed
  after that swap is in the buffer when the logger sees the flag and returns, and the
  only batch ever taken out is empty.
\<close>

theorem stop_without_final_drain:
  "logger (run spec_gen stop_pending (init True)) = L_Check
   \<and> shutdown_flag (run spec_gen stop_pending (init True))
   \<and> logger (run spec_gen late_stop (init True)) = L_Done
   \<and> sensor_data (run spec_gen late_stop (init True)) =
       [\<lparr>sensor_id = 0, density = 10, timestamp = 60000\<rparr>]
   \<and> batches (history (run spec_gen late_stop (init True))) = [[]]
   \<and> written (run spec_gen late_stop (init True)) = []"
proof -
  have "run spec_gen late_stop (init True) =
      run spec_gen [Logger] (run spec_gen stop_pending (init True))"
    by (simp add: late_stop_def run_append)
  then show ?thesis
    unfolding run_stop_pending by (simp add: step_eval)
qed

text \<open>
  C3, amended. The logger does not read the flag when it wakes: a logger that is
  waiting when the flag is set and the notification sent wakes at once, swaps out
  everything the buffer holds at that moment, reports it, and only then reads the flag
  and returns. When it reads the flag set, at the head of its loop, it returns without
  another swap; from then on nothing is swapped or written, and what is in the buffer
  or is pushed later stays there.
\<close>

theorem drain_after_wake_only:
  assumes "\<not> undefined_behaviour s"
  shows "(logger s = L_Wait n \<longrightarrow>
            logger (signal_stop s) = L_Swap
          \<and> local_data (run gen [Logger] (signal_stop s)) = sensor_data s
          \<and> sensor_data (run gen [Logger] (signal_stop s)) = []
          \<and> written (run gen [Logger, Logger] (signal_stop s)) =
              written s @ fst (aggregate (sensor_data s))
          \<and> (\<not> snd (aggregate (sensor_data s)) \<longrightarrow>
               logger (run gen [Logger, Logger, Logger] (signal_stop s)) = L_Done))
       \<and> (logger s = L_Check \<and> shutdown_flag s \<longrightarrow> step gen Logger s = s\<lparr>logger := L_Done\<rparr>)
       \<and> (logger s = L_Done \<longrightarrow>
            logger (run gen es s) = L_Done
          \<and> written (run gen es s) = written s
          \<and> batches (since s (run gen es s)) = []
          \<and> sensor_data (run gen es s) = sensor_data s @ pushed (since s (run gen es s)))"
proof (intro conjI impI)
  assume w: "logger s = L_Wait n"
  with assms show "logger (signal_stop s) = L_Swap"
    by (simp add: signal_stop_def notify_all_def set_flag_def)
  from w assms show "local_data (run gen [Logger] (signal_stop s)) = sensor_data s"
    by (simp add: run_def step_def logger_task_def signal_stop_def notify_all_def set_flag_def)
  from w assms show "sensor_data (run gen [Logger] (signal_stop s)) = []"
    by (simp add: run_def step_def logger_task_def signal_stop_def notify_all_def set_flag_def)
  from w assms show "written (run gen [Logger, Logger] (signal_stop s)) =
      written s @ fst (aggregate (sensor_data s))"
    by (simp add: run_def step_def logger_task_def signal_stop_def notify_all_def set_flag_def)
  assume "\<not> snd (aggregate (sensor_data s))"
  with w assms show "logger (run gen [Logger, Logger, Logger] (signal_stop s)) = L_Done"
    by (simp add: run_def step_def logger_task_def signal_stop_def notify_all_def set_flag_def)
next
  assume "logger s = L_Check \<and> shutdown_flag s"
  with assms show "step gen Logger s = s\<lparr>logger := L_Done\<rparr>"
    by (simp add: step_def logger_task_def)
next
  assume d: "logger s = L_Done"
  then show "logger (run gen es s) = L_Done" "written (run gen es s) = written s"
    by (simp_all add: run_logger_done)
  from d have "\<exists>h. quiet s h (run gen es s)" by (simp add: run_quiet)
  then obtain h where h: "quiet s h (run gen es s)" ..
  then have sh: "since s (run gen es s) = h" by (rule quiet_since)
  from h sh show "batches (since s (run gen es s)) = []" by (simp add: quiet_def)
  from h sh show "sensor_data (run gen es s) = sensor_data s @ pushed (since s (run gen es s))"
    by (simp add: quiet_def)
qed

theorem drain_after_wake_only_witness:
  "\<not> undefined_behaviour (run spec_gen to_wait (init True))
   \<and> logger (run spec_gen to_wait (init True)) = L_Wait 0
   \<and> sensor_data (run spec_gen to_wait (init True)) = spec_batch
   \<and> local_data (run spec_gen [Logger] (signal_stop (run spec_gen to_wait (init True)))) =
       spec_batch
   \<and> written (run spec_gen [Logger, Logger] (signal_stop (run spec_gen to_wait (init True)))) =
       [Alert 2 90, LogLine 50 10 90]
   \<and> logger (run spec_gen [Logger, Logger, Logger]
        (signal_stop (run spec_gen to_wait (init True)))) = L_Done
   \<and> \<not> undefined_behaviour (run spec_gen stop_pending (init True))
   \<and> logger (run spec_gen stop_pending (init True)) = L_Check
   \<and> shutdown_flag (run spec_gen stop_pending (init True))
   \<and> logger (step spec_gen Logger (run spec_gen stop_pending (init True))) = L_Done
   \<and> \<not> undefined_behaviour (run spec_gen whole_run (init True))
   \<and> logger (run spec_gen whole_run (init True)) = L_Done
   \<and> logger (run spec_gen [Logger, Spurious, Logger] (run spec_gen whole_run (init True))) =
       L_Done
   \<and> batches (since (run spec_gen whole_run (init True))
        (run spec_gen [Logger, Spurious, Logger] (run spec_gen whole_run (init True)))) = []"
proof -
  let ?w = "run spec_gen to_wait (init True)"
  let ?p = "run spec_gen stop_pending (init True)"
  let ?d = "run spec_gen whole_run (init True)"
  have w: "\<not> undefined_behaviour ?w" "logger ?w = L_Wait 0" "sensor_data ?w = spec_batch"
    "written ?w = []"
    by (simp_all add: run_to_wait spec_batch_def)
  have a: "aggregate spec_batch = ([Alert 2 90, LogLine 50 10 90], False)"
    by (simp add: spec_batch_def aggregate_eval)
  have p: "\<not> undefined_behaviour ?p" "logger ?p = L_Check" "shutdown_flag ?p"
    by (simp_all add: run_stop_pending)
  have d: "\<not> undefined_behaviour ?d" "logger ?d = L_Done" "length (sensor_data ?d) = 5"
    by (simp_all add: run_whole_run)
  from drain_after_wake_only [OF w(1), where n = 0 and gen = spec_gen and es = "[]"] w a
  have 1: "local_data (run spec_gen [Logger] (signal_stop ?w)) = spec_batch
      \<and> written (run spec_gen [Logger, Logger] (signal_stop ?w)) = [Alert 2 90, LogLine 50 10 90]
      \<and> logger (run spec_gen [Logger, Logger, Logger] (signal_stop ?w)) = L_Done"
    by simp
  from drain_after_wake_only [OF p(1), where n = 0 and gen = spec_gen and es = "[]"] p
  have 2: "logger (step spec_gen Logger ?p) = L_Done" by simp
  from drain_after_wake_only [OF d(1), where n = 0 and gen = spec_gen
      and es = "[Logger, Spurious, Logger]"] d
  have 3: "logger (run spec_gen [Logger, Spurious, Logger] ?d) = L_Done
      \<and> batches (since ?d (run spec_gen [Logger, Spurious, Logger] ?d)) = []"
    by simp
  from w p d 1 2 3 show ?thesis by simp
qed

text \<open>
  C4, as the code has it. The claim as stated fails for the sensors: their
  \<^verbatim>\<open>sleep_for\<close> is not woken by the flag or by the notification. In the run below
  sensor 0 starts its sleep just before the flag is set; 1499 milliseconds after the
  flag is set and the notification sent it is still asleep.
\<close>

theorem sensor_asleep_after_stop:
  "shutdown_flag (run spec_gen asleep_at_stop (init True))
   \<and> main_thread (run spec_gen asleep_at_stop (init True)) = M_Join
   \<and> now (run spec_gen asleep_at_stop (init True)) = 60000
   \<and> sensors (run spec_gen (asleep_at_stop @ [Elapse 1499, Sensor 0]) (init True)) ! 0 =
       S_Sleep 1
   \<and> now (run spec_gen (asleep_at_stop @ [Elapse 1499, Sensor 0]) (init True)) = 61499"
  unfolding run_append run_asleep_at_stop by (simp add: step_eval)

text \<open>
  C4, amended. Only the wait of the logger can be cut short. A logger that is waiting
  when the flag is set and the notification sent wakes at once, whatever remains of its
  interval, and returns after one swap and one report, with no time passing. A
  notification sent after the logger has read the flag and before it waits is missed:
  the logger then waits for its timeout (or for a notification of a sensor). A sensor
  that sleeps stays asleep until its sleep has passed, whatever the other threads do:
  in every schedule in which less time passes than its sleep has left, it is still
  asleep at the end.
\<close>

theorem only_the_wait_is_cut_short:
  "(i < length (sensors s) \<and> sensors s ! i = S_Sleep n \<and> elapsed es < n \<longrightarrow>
      (\<exists>m. sensors (run gen es s) ! i = S_Sleep m \<and> n - elapsed es \<le> m))
   \<and> (logger s = L_Wait n \<and> \<not> undefined_behaviour s \<and> \<not> snd (aggregate (sensor_data s)) \<longrightarrow>
      logger (signal_stop s) = L_Swap
      \<and> logger (run gen [Logger, Logger, Logger] (signal_stop s)) = L_Done)
   \<and> (logger s = L_Lock \<and> \<not> undefined_behaviour s \<longrightarrow>
      logger (run gen [Logger] (signal_stop s)) = L_Wait AGGREGATION_INTERVAL)"
proof (intro conjI impI)
  assume "i < length (sensors s) \<and> sensors s ! i = S_Sleep n \<and> elapsed es < n"
  then show "\<exists>m. sensors (run gen es s) ! i = S_Sleep m \<and> n - elapsed es \<le> m"
    by (simp add: run_asleep)
next
  assume a: "logger s = L_Wait n \<and> \<not> undefined_behaviour s \<and> \<not> snd (aggregate (sensor_data s))"
  then show "logger (signal_stop s) = L_Swap"
    by (simp add: signal_stop_def notify_all_def set_flag_def)
  from a show "logger (run gen [Logger, Logger, Logger] (signal_stop s)) = L_Done"
    by (simp add: run_def step_def logger_task_def signal_stop_def notify_all_def set_flag_def)
next
  assume "logger s = L_Lock \<and> \<not> undefined_behaviour s"
  then show "logger (run gen [Logger] (signal_stop s)) = L_Wait AGGREGATION_INTERVAL"
    by (simp add: run_def step_def logger_task_def signal_stop_def notify_all_def set_flag_def)
qed

theorem only_the_wait_is_cut_short_witness:
  "0 < length (sensors (run spec_gen asleep_at_stop (init True)))
   \<and> sensors (run spec_gen asleep_at_stop (init True)) ! 0 = S_Sleep 1500
   \<and> elapsed [Elapse 1000, Sensor 0, Logger, Main, Elapse 499, Sensor 0] < 1500
   \<and> (\<exists>m. sensors (run spec_gen [Elapse 1000, Sensor 0, Logger, Main, Elapse 499, Sensor 0]
              (run spec_gen asleep_at_stop (init True))) ! 0 = S_Sleep m \<and> 1 \<le> m)
   \<and> logger (run spec_gen all_asleep (init True)) = L_Wait 1500
   \<and> \<not> undefined_behaviour (run spec_gen all_asleep (init True))
   \<and> \<not> snd (aggregate (sensor_data (run spec_gen all_asleep (init True))))
   \<and> logger (run spec_gen [Logger, Logger, Logger]
        (signal_stop (run spec_gen all_asleep (init True)))) = L_Done
   \<and> logger (run spec_gen [Logger, Logger] (init True)) = L_Lock
   \<and> \<not> undefined_behaviour (run spec_gen [Logger, Logger] (init True))
   \<and> logger (run spec_gen [Logger]
        (signal_stop (run spec_gen [Logger, Logger] (init True)))) = L_Wait 3000"
proof -
  let ?a = "run spec_gen asleep_at_stop (init True)"
  let ?w = "run spec_gen all_asleep (init True)"
  let ?l = "run spec_gen [Logger, Logger] (init True)"
  have a: "0 < length (sensors ?a)" "sensors ?a ! 0 = S_Sleep 1500"
    "elapsed [Elapse 1000, Sensor 0, Logger, Main, Elapse 499, Sensor 0] < 1500"
    by (simp_all add: run_asleep_at_stop)
  have w: "logger ?w = L_Wait 1500" "\<not> undefined_behaviour ?w"
    "\<not> snd (aggregate (sensor_data ?w))"
    by (simp_all add: run_all_asleep aggregate_def)
  have l: "logger ?l = L_Lock" "\<not> undefined_behaviour ?l"
    by (simp_all add: run_eval)
  from only_the_wait_is_cut_short [where i = 0 and s = ?a and n = 1500 and gen = spec_gen
      and es = "[Elapse 1000, Sensor 0, Logger, Main, Elapse 499, Sensor 0]"] a
  have 1: "\<exists>m. sensors (run spec_gen [Elapse 1000, Sensor 0, Logger, Main, Elapse 499, Sensor 0]
      ?a) ! 0 = S_Sleep m \<and> 1 \<le> m"
    by simp
  from only_the_wait_is_cut_short [where i = 0 and s = ?w and n = 1500 and gen = spec_gen
      and es = "[]"] w
  have 2: "logger (run spec_gen [Logger, Logger, Logger] (signal_stop ?w)) = L_Done"
    by simp
  from only_the_wait_is_cut_short [where i = 0 and s = ?l and n = 1500 and gen = spec_gen
      and es = "[]"] l
  have 3: "logger (run spec_gen [Logger] (signal_stop ?l)) = L_Wait 3000"
    by (simp add: AGGREGATION_INTERVAL_def)
  from a w l 1 2 3 show ?thesis by simp
qed

section \<open>The log file\<close>




end
